theory Spec2Isabelle
  imports Main
begin

section \<open>Strings and low-level helpers (pipeline/0a-preprocess.js)\<close>

text \<open>
  A JavaScript string is modelled as a \<^typ>\<open>string\<close>, one \<^typ>\<open>char\<close> per code unit, so
  that \<open>s.length\<close> is \<^const>\<open>length\<close>. The input of both phases is the ordered sequence of
  physical lines handed over by the line reader, a \<^typ>\<open>string list\<close>. An output stream is the
  list of the chunks written to it, in order.
\<close>

abbreviation TAB :: char where "TAB \<equiv> CHR 0x09"
abbreviation LF :: char where "LF \<equiv> CHR 0x0A"
abbreviation CR :: char where "CR \<equiv> CHR 0x0D"
abbreviation BACKSLASH :: char where "BACKSLASH \<equiv> CHR 0x5C"

text \<open>\<open>countTabs\<close> (and its local copy \<open>countTabsLocal\<close>): the number of code units equal to 9.\<close>

primrec countTabs :: "string \<Rightarrow> nat" where
  "countTabs [] = 0"
| "countTabs (c # s) = (if c = TAB then Suc (countTabs s) else countTabs s)"

text \<open>\<open>raw.replace(/\r/g, '')\<close>: every carriage return is removed.\<close>

definition stripCR :: "string \<Rightarrow> string" where
  "stripCR raw = filter (\<lambda>c. c \<noteq> CR) raw"

text \<open>
  \<open>s.split("\t")\<close> and \<open>parts.join("\t")\<close>. A split always has a first field, to which a
  character that is not a delimiter is added; the case of an empty split never arises
  (\<open>split_tab_nonempty\<close> below).
\<close>

primrec split_tab :: "string \<Rightarrow> string list" where
  "split_tab [] = [[]]"
| "split_tab (c # s) =
     (if c = TAB then [] # split_tab s
      else (case split_tab s of [] \<Rightarrow> [[c]] | f # fs \<Rightarrow> (c # f) # fs))"

fun join_tab :: "string list \<Rightarrow> string" where
  "join_tab [] = []"
| "join_tab [f] = f"
| "join_tab (f # g # fs) = f @ TAB # join_tab (g # fs)"

section \<open>Anchor discovery\<close>

text \<open>
  The anchor pattern is
  \<^verbatim>\<open>/(?:^|\t)([0-9]{10})\t([0-9]{10,20})\t([0-9]{10,20})(?=\t|$)/g\<close>.
  Each digit group is followed by something that is not a digit (a tab, or the end of the
  line), so a greedy, backtracking group \<open>[0-9]{lo,hi}\<close> matches exactly when the maximal run
  of digits at that place has between \<open>lo\<close> and \<open>hi\<close> members. \<open>anchorBody\<close> matches the three
  groups and returns the number of code units consumed; \<open>anchorAt\<close> adds the alternative
  \<open>(?:^|\t)\<close>, where \<open>^\<close> is tried first and only matches at index 0 of the line.
\<close>

definition isDigit :: "char \<Rightarrow> bool" where
  "isDigit c = (c \<in> set ''0123456789'')"

definition digitRun :: "string \<Rightarrow> nat" where
  "digitRun s = length (takeWhile isDigit s)"

definition anchorBody :: "string \<Rightarrow> nat option" where
  "anchorBody s =
     (let n1 = digitRun s; s1 = drop n1 s in
      if n1 = 10 \<and> s1 \<noteq> [] \<and> hd s1 = TAB then
        (let s2 = tl s1; n2 = digitRun s2; s3 = drop n2 s2 in
         if 10 \<le> n2 \<and> n2 \<le> 20 \<and> s3 \<noteq> [] \<and> hd s3 = TAB then
           (let s4 = tl s3; n3 = digitRun s4; s5 = drop n3 s4 in
            if 10 \<le> n3 \<and> n3 \<le> 20 \<and> (s5 = [] \<or> hd s5 = TAB)
            then Some (n1 + 1 + n2 + 1 + n3) else None)
         else None)
      else None)"

definition anchorAt :: "bool \<Rightarrow> string \<Rightarrow> nat option" where
  "anchorAt atStart s =
     (case (if atStart then anchorBody s else None) of
        Some n \<Rightarrow> Some n
      | None \<Rightarrow>
          (case s of
             [] \<Rightarrow> None
           | c # s' \<Rightarrow> if c = TAB then map_option Suc (anchorBody s') else None))"

text \<open>
  \<open>TRIPLE_ANCHOR_RE_G.exec(line)\<close> from \<open>lastIndex\<close>: the leftmost match in the rest of the
  line, as (offset of \<open>m.index\<close> from \<open>lastIndex\<close>, length of the match). \<open>atStart\<close> says
  that \<open>lastIndex\<close> is 0.
\<close>

fun execAnchor :: "bool \<Rightarrow> string \<Rightarrow> (nat \<times> nat) option" where
  "execAnchor atStart [] = None"
| "execAnchor atStart (c # s) =
     (case anchorAt atStart (c # s) of
        Some n \<Rightarrow> Some (0, n)
      | None \<Rightarrow> map_option (\<lambda>(i, n). (Suc i, n)) (execAnchor False s))"

text \<open>
  The \<open>while\<close> loop over the matches of one physical line, followed by the ingestion of the
  tail. \<open>rest\<close> is \<open>line.slice(pos)\<close>; at the head of every iteration \<open>pos\<close> equals
  \<open>lastIndex\<close>. The assignment \<open>pos = m.index\<close> is overwritten at once by
  \<open>pos = TRIPLE_ANCHOR_RE_G.lastIndex\<close>, so the next window starts after the whole match.
\<close>

function scanLine :: "bool \<Rightarrow> string \<Rightarrow> int \<Rightarrow> int list \<Rightarrow> int \<times> int list" where
  "scanLine atStart rest absTabs anchorTabIdx =
     (case execAnchor atStart rest of
        None \<Rightarrow> (absTabs + int (countTabs rest), anchorTabIdx)
      | Some (i, n) \<Rightarrow>
          (let absTabs' = absTabs + int (countTabs (take i rest))
           in scanLine False (drop (i + n) rest) absTabs' (anchorTabIdx @ [absTabs'])))"
  by pat_completeness auto
termination
proof (relation "measure (\<lambda>(b, rest, a, ix). length rest)")
  show "wf (measure (\<lambda>(b, rest, a, ix). length rest))"
    by simp
next
  fix atStart :: bool and rest :: string and absTabs :: int and anchorTabIdx :: "int list"
    and x2 :: "nat \<times> nat" and i n :: nat and absTabs' :: int
  assume found: "execAnchor atStart rest = Some x2" and x2: "(i, n) = x2"
  have body: "0 < m" if "anchorBody s = Some m" for s m
    using that by (auto simp: anchorBody_def Let_def split: if_splits)
  have at: "0 < m" if "anchorAt b s = Some m" for b s m
    using that
    by (auto simp: anchorAt_def split: if_splits option.splits list.splits dest: body)
  have ex: "0 < m \<and> s \<noteq> []" if "execAnchor b s = Some (j, m)" for b s j m
    using that
    by (induction s arbitrary: b j) (auto split: option.splits dest: at)
  from found x2 have "0 < n \<and> rest \<noteq> []"
    using ex [of atStart rest i n] by simp
  then show "((False, drop (i + n) rest, absTabs', anchorTabIdx @ [absTabs']),
              (atStart, rest, absTabs, anchorTabIdx))
             \<in> measure (\<lambda>(b, rest, a, ix). length rest)"
    by simp
qed

declare scanLine.simps [simp del]

text \<open>The \<open>for await\<close> loop over the physical lines of the file.\<close>

fun scanFile :: "string list \<Rightarrow> int \<Rightarrow> int list \<Rightarrow> int \<times> int list" where
  "scanFile [] absTabs anchorTabIdx = (absTabs, anchorTabIdx)"
| "scanFile (raw # rest) absTabs anchorTabIdx =
     (case scanLine True (stripCR raw) absTabs anchorTabIdx of
        (absTabs', anchorTabIdx') \<Rightarrow> scanFile rest absTabs' anchorTabIdx')"

text \<open>
  The histogram is a JavaScript \<open>Map\<close>, iterated in insertion order: an association list in
  which a new key goes to the end and an old key keeps its place. The mode is sought from
  \<open>canonicalTabs = 0\<close>, \<open>modeFreq = -1\<close>. The returned \<open>histogram\<close> is
  \<open>Object.fromEntries(hist)\<close>, an object whose integer keys enumerate in ascending order; it
  is only logged.
\<close>

fun histBump :: "int \<Rightarrow> (int \<times> int) list \<Rightarrow> (int \<times> int) list" where
  "histBump delta [] = [(delta, 1)]"
| "histBump delta ((k, v) # h) =
     (if k = delta then (k, v + 1) # h else (k, v) # histBump delta h)"

fun buildHist :: "int list \<Rightarrow> (int \<times> int) list \<Rightarrow> (int \<times> int) list" where
  "buildHist (a # b # xs) hist = buildHist (b # xs) (histBump (b - a) hist)"
| "buildHist _ hist = hist"

fun pickMode :: "(int \<times> int) list \<Rightarrow> int \<times> int \<Rightarrow> int \<times> int" where
  "pickMode [] acc = acc"
| "pickMode ((delta, freq) # h) (canonicalTabs, modeFreq) =
     pickMode h
       (if freq > modeFreq \<or> (freq = modeFreq \<and> delta > canonicalTabs)
        then (delta, freq) else (canonicalTabs, modeFreq))"

datatype error = NoValidTripleAnchors | FailedCanonicalTabs

record discovery =
  d_canonicalTabs :: int
  d_histogram :: "(int \<times> int) list"
  d_records :: nat
  d_validAnchors :: nat

definition discoverCanonicalTabs :: "string list \<Rightarrow> error + discovery" where
  "discoverCanonicalTabs file =
     (let anchorTabIdx = snd (scanFile file 0 []) in
      if length anchorTabIdx < 2 then Inl NoValidTripleAnchors
      else
        (let hist = buildHist anchorTabIdx [];
             canonicalTabs = fst (pickMode hist (0, - 1))
         in if canonicalTabs \<le> 0 then Inl FailedCanonicalTabs
            else Inr \<lparr> d_canonicalTabs = canonicalTabs,
                       d_histogram = sort_key fst hist,
                       d_records = length anchorTabIdx,
                       d_validAnchors = length anchorTabIdx \<rparr>))"

section \<open>Streaming reconstruction\<close>

text \<open>
  The closure variables of \<open>reconstruct\<close>. \<open>rejStream\<close> is \<open>None\<close> when no rejects location
  was given (\<open>rejStream\<close> is \<open>null\<close> and \<open>writeRej\<close> writes nothing). The canonical width and
  the padding tolerance are counts, modelled as natural numbers.
\<close>

record env =
  canonicalTabs :: nat
  newlineReplacement :: string
  paddingTolerance :: nat

record rstate =
  cur :: string
  curTabs :: nat
  pendingNL :: bool
  records :: nat
  ok :: nat
  bad :: nat
  outStream :: "string list"
  rejStream :: "string list option"

definition MAX_CUR_LEN :: nat where
  "MAX_CUR_LEN = 64 * 1024 * 1024"

definition MAX_TAB_MULTIPLIER :: nat where
  "MAX_TAB_MULTIPLIER = 8"

definition writeOut :: "string \<Rightarrow> rstate \<Rightarrow> rstate" where
  "writeOut s st = st\<lparr>outStream := outStream st @ [s]\<rparr>"

definition writeRej :: "string \<Rightarrow> rstate \<Rightarrow> rstate" where
  "writeRej s st = st\<lparr>rejStream := map_option (\<lambda>r. r @ [s]) (rejStream st)\<rparr>"

text \<open>
  \<open>appendToCur(str, consumePending)\<close>: an empty \<open>str\<close> returns at once; the placeholder is
  spliced when a join is pending; the safety check follows the append.
\<close>

definition appendToCur :: "env \<Rightarrow> string \<Rightarrow> bool \<Rightarrow> rstate \<Rightarrow> rstate" where
  "appendToCur e str consumePending st =
     (if str = [] then st
      else
        (let st1 = (if consumePending \<and> pendingNL st
                    then st\<lparr>cur := cur st @ newlineReplacement e, pendingNL := False\<rparr>
                    else st);
             st2 = st1\<lparr>cur := cur st1 @ str, curTabs := curTabs st1 + countTabs str\<rparr>
         in if length (cur st2) > MAX_CUR_LEN
               \<or> curTabs st2 > canonicalTabs e * MAX_TAB_MULTIPLIER
            then (writeRej (cur st2 @ [LF]) st2)
                   \<lparr>bad := bad st2 + 1, cur := [], curTabs := 0, pendingNL := False\<rparr>
            else st2))"

text \<open>
  \<open>Math.floor(canonicalTabs * 0.6)\<close> is computed in double precision; for every width below
  \<open>2^50\<close> the rounded product has the same floor as the exact \<open>3 * canonicalTabs / 5\<close>.
\<close>

definition looksLikeFragment :: "env \<Rightarrow> nat \<Rightarrow> bool" where
  "looksLikeFragment e tabsInRow =
     (if tabsInRow < 10 then True
      else if tabsInRow < (canonicalTabs e * 3) div 5 then True
      else False)"

definition finalizeCur :: "env \<Rightarrow> rstate \<Rightarrow> rstate" where
  "finalizeCur e st =
     (if cur st = [] then st
      else
        (let st1 = st\<lparr>records := records st + 1\<rparr>;
             cols = curTabs st1 + 1;
             targetCols = canonicalTabs e + 1;
             st2 =
               (if curTabs st1 = canonicalTabs e then
                  (writeOut (cur st1 @ [LF]) st1)\<lparr>ok := ok st1 + 1\<rparr>
                else if cols < targetCols \<and> targetCols - cols \<le> paddingTolerance e then
                  (writeOut (cur st1 @ replicate (targetCols - cols) TAB @ [LF]) st1)
                    \<lparr>ok := ok st1 + 1\<rparr>
                else if cols > targetCols \<and> cols - targetCols \<le> paddingTolerance e then
                  (writeOut (join_tab (take targetCols (split_tab (cur st1))) @ [LF]) st1)
                    \<lparr>ok := ok st1 + 1\<rparr>
                else if looksLikeFragment e (curTabs st1) then
                  (writeRej (cur st1 @ [LF]) st1)\<lparr>bad := bad st1 + 1\<rparr>
                else
                  (writeRej (cur st1 @ [LF]) st1)\<lparr>bad := bad st1 + 1\<rparr>)
         in st2\<lparr>cur := [], curTabs := 0\<rparr>))"

text \<open>The body of the \<open>for await\<close> loop of \<open>reconstruct\<close>, for one physical line.\<close>

definition processLine :: "env \<Rightarrow> rstate \<Rightarrow> string \<Rightarrow> rstate" where
  "processLine e st rawLine =
     (let line = stripCR rawLine;
          st1 = st\<lparr>pendingNL := (length (cur st) > 0)\<rparr>;
          st2 = appendToCur e line True st1
      in if curTabs st2 \<ge> canonicalTabs e
         then (finalizeCur e st2)\<lparr>pendingNL := False\<rparr>
         else st2)"

definition initState :: "bool \<Rightarrow> rstate" where
  "initState rejects =
     \<lparr> cur = [], curTabs = 0, pendingNL = False, records = 0, ok = 0, bad = 0,
       outStream = [], rejStream = (if rejects then Some [] else None) \<rparr>"

text \<open>
  \<open>reconstruct\<close>: the loop, then the flush at the end of the stream. \<open>rejects\<close> says that a
  rejects location was given. The returned state carries the counters
  \<open>{ records, ok, bad }\<close> and the two streams; the fourth component of the returned object,
  \<open>canonicalTabs\<close>, is the parameter itself. \<open>printStats\<close> only logs.
\<close>

definition reconstruct :: "env \<Rightarrow> bool \<Rightarrow> string list \<Rightarrow> rstate" where
  "reconstruct e rejects file =
     (let st = foldl (processLine e) (initState rejects) file
      in if cur st \<noteq> [] then finalizeCur e st else st)"

section \<open>The public entry point\<close>

text \<open>
  \<open>preprocessFile\<close>: the canonical width is the configured override when there is one and is
  discovered otherwise; an error of the discovery leaves before \<open>reconstruct\<close> opens any
  output. The rejects location is \<open>config.rejectsPath || <dir>/<name>-rejected<ext>\<close>, never
  empty, so \<open>reconstruct\<close> always gets a rejects stream.
\<close>

record config =
  c_canonicalTabs :: "nat option"
  c_newlineReplacement :: string
  c_paddingTolerance :: nat

definition DEFAULT_CONFIG :: config where
  "DEFAULT_CONFIG =
     \<lparr> c_canonicalTabs = None, c_newlineReplacement = [BACKSLASH, CHR ''n''],
       c_paddingTolerance = 3 \<rparr>"

definition preprocessFile :: "config \<Rightarrow> string list \<Rightarrow> error + rstate" where
  "preprocessFile cfg file =
     (case (case c_canonicalTabs cfg of
              Some t \<Rightarrow> Inr t
            | None \<Rightarrow>
                (case discoverCanonicalTabs file of
                   Inl err \<Rightarrow> Inl err
                 | Inr d \<Rightarrow> Inr (nat (d_canonicalTabs d)))) of
        Inl err \<Rightarrow> Inl err
      | Inr t \<Rightarrow>
          Inr (reconstruct
                 \<lparr> canonicalTabs = t, newlineReplacement = c_newlineReplacement cfg,
                   paddingTolerance = c_paddingTolerance cfg \<rparr>
                 True file))"

section \<open>Concrete inputs\<close>

text \<open>The configuration of \<open>DEFAULT_CONFIG\<close> at canonical width \<open>t\<close>.\<close>

definition defaultEnv :: "nat \<Rightarrow> env" where
  "defaultEnv t =
     \<lparr> canonicalTabs = t, newlineReplacement = [BACKSLASH, CHR ''n''],
       paddingTolerance = 3 \<rparr>"

text \<open>A physical line of nine delimiters.\<close>

definition tabs9 :: string where
  "tabs9 = [TAB, TAB, TAB, TAB, TAB, TAB, TAB, TAB, TAB]"


definition sixTabLine :: string where
  "sixTabLine =
     ''a'' @ [TAB] @ ''b'' @ [TAB] @ ''c'' @ [TAB] @ ''d'' @ [TAB] @ ''e'' @ [TAB] @ ''f''
       @ [TAB] @ ''g''"


text \<open>A configuration whose placeholder token is a single delimiter, at canonical width 5.\<close>

definition tabEnvWide :: env where
  "tabEnvWide = \<lparr> canonicalTabs = 5, newlineReplacement = [TAB], paddingTolerance = 3 \<rparr>"

text \<open>An accumulator holding \<open>a\<close>, with a join pending.\<close>

definition joinState :: rstate where
  "joinState = (initState True)\<lparr>cur := ''a'', pendingNL := True\<rparr>"

text \<open>A configuration whose placeholder token is a single delimiter, at canonical width 2.\<close>

definition tabEnv :: env where
  "tabEnv = \<lparr> canonicalTabs = 2, newlineReplacement = [TAB], paddingTolerance = 3 \<rparr>"

text \<open>A physical line of six fields.\<close>

definition fiveTabLine :: string where
  "fiveTabLine =
     ''a'' @ [TAB] @ ''b'' @ [TAB] @ ''c'' @ [TAB] @ ''d'' @ [TAB] @ ''e'' @ [TAB] @ ''f''"

text \<open>A physical line of one delimiter followed by \<open>MAX_CUR_LEN\<close> letters.\<close>

definition oversizeLine :: string where
  "oversizeLine = TAB # replicate MAX_CUR_LEN (CHR ''a'')"

text \<open>
  A well-formed record of six fields (five delimiters) whose third to fifth fields form the
  anchor, and the second physical line left when its first delimiter is lost to a line
  break.
\<close>

definition anchorRecord :: string where
  "anchorRecord =
     ''alpha'' @ [TAB] @ ''beta'' @ [TAB] @ ''1700000000'' @ [TAB] @ ''1234567890123''
       @ [TAB] @ ''9876543210987'' @ [TAB] @ ''gamma''"

definition betaLine :: string where
  "betaLine =
     ''beta'' @ [TAB] @ ''1700000000'' @ [TAB] @ ''1234567890123''
       @ [TAB] @ ''9876543210987'' @ [TAB] @ ''gamma''"

text \<open>An accumulator holding \<open>a\<close>, between two physical lines.\<close>

definition pendingA :: rstate where
  "pendingA = (initState True)\<lparr>cur := ''a''\<rparr>"

section \<open>Facts about the helpers\<close>

lemmas model_defs = reconstruct_def processLine_def appendToCur_def finalizeCur_def
  initState_def writeOut_def writeRej_def stripCR_def looksLikeFragment_def
  MAX_CUR_LEN_def MAX_TAB_MULTIPLIER_def Let_def

lemma countTabs_append: "countTabs (a @ b) = countTabs a + countTabs b"
  by (induction a) auto

lemma countTabs_replicate_TAB: "countTabs (replicate n TAB) = n"
  by (induction n) auto

lemma countTabs_snoc_LF: "countTabs (s @ [LF]) = countTabs s"
  by (simp add: countTabs_append)

lemma split_tab_nonempty: "split_tab s \<noteq> []"
  by (induction s) (auto split: list.splits)

lemma length_split_tab: "length (split_tab s) = Suc (countTabs s)"
  by (induction s) (auto split: list.splits)

lemma split_tab_fields: "f \<in> set (split_tab s) \<Longrightarrow> countTabs f = 0"
proof (induction s arbitrary: f)
  case Nil
  then show ?case by simp
next
  case (Cons c s)
  obtain g gs where sp: "split_tab s = g # gs"
    using split_tab_nonempty [of s] by (cases "split_tab s") auto
  with Cons show ?case
    by (auto split: if_splits)
qed

lemma countTabs_join_tab:
  "fs \<noteq> [] \<Longrightarrow> \<forall>f\<in>set fs. countTabs f = 0 \<Longrightarrow> countTabs (join_tab fs) = length fs - 1"
  by (induction fs rule: join_tab.induct) (auto simp: countTabs_append)

text \<open>Keeping the \<open>t + 1\<close> leading fields of a longer record leaves exactly \<open>t\<close> delimiters.\<close>

lemma countTabs_truncate:
  assumes "t \<le> countTabs s"
  shows "countTabs (join_tab (take (Suc t) (split_tab s))) = t"
proof -
  let ?fs = "take (Suc t) (split_tab s)"
  have len: "length ?fs = Suc t"
    using assms by (simp add: length_split_tab)
  then have ne: "?fs \<noteq> []" by auto
  have "\<forall>f\<in>set ?fs. countTabs f = 0"
    by (meson in_set_takeD split_tab_fields)
  from countTabs_join_tab [OF ne this] len show ?thesis by simp
qed

lemma stripCR_id: "CR \<notin> set l \<Longrightarrow> stripCR l = l"
  by (induction l) (auto simp: stripCR_def)

section \<open>The per-file counters\<close>

text \<open>
  \<open>finalizeCur\<close> counts every record it flushes in the total and in exactly one of the two
  other counters.
\<close>

lemma finalizeCur_counts:
  "records (finalizeCur e st) + ok st + bad st
     = records st + ok (finalizeCur e st) + bad (finalizeCur e st)"
  by (simp add: finalizeCur_def writeOut_def writeRej_def Let_def)

text \<open>
  The safety check of \<open>appendToCur\<close> only increments \<open>bad\<close>. So the total never exceeds the
  sum of the two other counters, for any file; the claim below is about the converse.
\<close>

lemma appendToCur_records_le:
  "records st \<le> ok st + bad st \<Longrightarrow>
   records (appendToCur e str c st) \<le> ok (appendToCur e str c st) + bad (appendToCur e str c st)"
  by (simp add: appendToCur_def writeRej_def Let_def)

lemma finalizeCur_records_le:
  "records st \<le> ok st + bad st \<Longrightarrow>
   records (finalizeCur e st) \<le> ok (finalizeCur e st) + bad (finalizeCur e st)"
  using finalizeCur_counts [of e st] by linarith

lemma processLine_records_le:
  assumes "records st \<le> ok st + bad st"
  shows "records (processLine e st raw)
         \<le> ok (processLine e st raw) + bad (processLine e st raw)"
proof -
  let ?st1 = "st\<lparr>pendingNL := (length (cur st) > 0)\<rparr>"
  from assms have "records ?st1 \<le> ok ?st1 + bad ?st1" by simp
  from appendToCur_records_le [OF this, of e "stripCR raw" True]
    finalizeCur_records_le [of "appendToCur e (stripCR raw) True ?st1" e]
  show ?thesis
    by (simp add: processLine_def Let_def)
qed

lemma foldl_processLine_records_le:
  "records st \<le> ok st + bad st \<Longrightarrow>
   records (foldl (processLine e) st input)
     \<le> ok (foldl (processLine e) st input) + bad (foldl (processLine e) st input)"
proof (induction input arbitrary: st)
  case Nil
  then show ?case by simp
next
  case (Cons raw input)
  from Cons.IH [OF processLine_records_le [OF Cons.prems]] show ?case by simp
qed

lemma reconstruct_records_le:
  "records (reconstruct e rejects input)
     \<le> ok (reconstruct e rejects input) + bad (reconstruct e rejects input)"
proof -
  have "records (initState rejects) \<le> ok (initState rejects) + bad (initState rejects)"
    by (simp add: initState_def)
  from foldl_processLine_records_le [OF this, of e input]
    finalizeCur_records_le [of "foldl (processLine e) (initState rejects) input" e]
  show ?thesis
    by (simp add: reconstruct_def Let_def)
qed

text \<open>
  Claim C1: the counters returned for a file satisfy total records = accepted + rejected,
  records flushed by the runaway-accumulation guardrail included. The safety check of
  \<open>appendToCur\<close> increments \<open>bad\<close> and writes the reject, but leaves \<open>records\<close> alone: at
  canonical width 1 a line of nine delimiters exceeds eight times the width, and the file
  made of that line returns total 0, accepted 0, rejected 1.
\<close>

theorem reconstruct_guardrail_miscount:
  "records (reconstruct (defaultEnv 1) True [tabs9]) = 0
   \<and> ok (reconstruct (defaultEnv 1) True [tabs9]) = 0
   \<and> bad (reconstruct (defaultEnv 1) True [tabs9]) = 1
   \<and> rejStream (reconstruct (defaultEnv 1) True [tabs9]) = Some [tabs9 @ [LF]]
   \<and> records (reconstruct (defaultEnv 1) True [tabs9])
       \<noteq> ok (reconstruct (defaultEnv 1) True [tabs9])
         + bad (reconstruct (defaultEnv 1) True [tabs9])"
  by (simp add: model_defs defaultEnv_def tabs9_def)

section \<open>Finalization policy\<close>

text \<open>
  One call of \<open>finalizeCur\<close> on a non-empty accumulator whose running count is the number of
  delimiters it holds: the short branch pads to the canonical width, the long branch keeps
  the leading fields; both write to the accepted stream.
\<close>

lemma finalizeCur_pad_truncate_counted:
  assumes "cur st \<noteq> []" and "curTabs st = countTabs (cur st)"
  shows "(curTabs st < canonicalTabs e \<and> canonicalTabs e - curTabs st \<le> paddingTolerance e \<longrightarrow>
            outStream (finalizeCur e st)
              = outStream st @ [cur st @ replicate (canonicalTabs e - curTabs st) TAB @ [LF]]
            \<and> countTabs (cur st @ replicate (canonicalTabs e - curTabs st) TAB) = canonicalTabs e
            \<and> ok (finalizeCur e st) = ok st + 1
            \<and> bad (finalizeCur e st) = bad st
            \<and> rejStream (finalizeCur e st) = rejStream st)
       \<and> (canonicalTabs e < curTabs st \<and> curTabs st - canonicalTabs e \<le> paddingTolerance e \<longrightarrow>
            outStream (finalizeCur e st)
              = outStream st @ [join_tab (take (canonicalTabs e + 1) (split_tab (cur st))) @ [LF]]
            \<and> length (take (canonicalTabs e + 1) (split_tab (cur st))) = canonicalTabs e + 1
            \<and> countTabs (join_tab (take (canonicalTabs e + 1) (split_tab (cur st)))) = canonicalTabs e
            \<and> ok (finalizeCur e st) = ok st + 1
            \<and> bad (finalizeCur e st) = bad st
            \<and> rejStream (finalizeCur e st) = rejStream st)"
proof (intro conjI impI)
  assume short: "curTabs st < canonicalTabs e \<and> canonicalTabs e - curTabs st \<le> paddingTolerance e"
  with assms show "outStream (finalizeCur e st)
      = outStream st @ [cur st @ replicate (canonicalTabs e - curTabs st) TAB @ [LF]]"
    by (simp add: finalizeCur_def writeOut_def Let_def)
  from short assms
  show "countTabs (cur st @ replicate (canonicalTabs e - curTabs st) TAB) = canonicalTabs e"
    by (simp add: countTabs_append countTabs_replicate_TAB)
  from short assms show "ok (finalizeCur e st) = ok st + 1"
    by (simp add: finalizeCur_def writeOut_def Let_def)
  from short assms show "bad (finalizeCur e st) = bad st"
    by (simp add: finalizeCur_def writeOut_def Let_def)
  from short assms show "rejStream (finalizeCur e st) = rejStream st"
    by (simp add: finalizeCur_def writeOut_def Let_def)
next
  assume long: "canonicalTabs e < curTabs st \<and> curTabs st - canonicalTabs e \<le> paddingTolerance e"
  with assms show "outStream (finalizeCur e st)
      = outStream st @ [join_tab (take (canonicalTabs e + 1) (split_tab (cur st))) @ [LF]]"
    by (simp add: finalizeCur_def writeOut_def Let_def)
  from long assms
  show "length (take (canonicalTabs e + 1) (split_tab (cur st))) = canonicalTabs e + 1"
    by (simp add: length_split_tab)
  from long assms
  show "countTabs (join_tab (take (canonicalTabs e + 1) (split_tab (cur st)))) = canonicalTabs e"
    using countTabs_truncate [of "canonicalTabs e" "cur st"] by simp
  from long assms show "ok (finalizeCur e st) = ok st + 1"
    by (simp add: finalizeCur_def writeOut_def Let_def)
  from long assms show "bad (finalizeCur e st) = bad st"
    by (simp add: finalizeCur_def writeOut_def Let_def)
  from long assms show "rejStream (finalizeCur e st) = rejStream st"
    by (simp add: finalizeCur_def writeOut_def Let_def)
qed

text \<open>
  One call of \<open>finalizeCur\<close> on a non-empty accumulator whose running count is a fragment's
  and differs from the canonical width by more than the tolerance: the text goes to the
  rejects as it is, and the accumulator is emptied.
\<close>

lemma finalizeCur_reject_far:
  assumes "cur st \<noteq> []"
    and "looksLikeFragment e (curTabs st)"
    and "curTabs st + paddingTolerance e < canonicalTabs e
         \<or> canonicalTabs e + paddingTolerance e < curTabs st"
  shows "rejStream (finalizeCur e st) = map_option (\<lambda>r. r @ [cur st @ [LF]]) (rejStream st)
       \<and> outStream (finalizeCur e st) = outStream st
       \<and> bad (finalizeCur e st) = bad st + 1
       \<and> ok (finalizeCur e st) = ok st
       \<and> records (finalizeCur e st) = records st + 1
       \<and> cur (finalizeCur e st) = []
       \<and> curTabs (finalizeCur e st) = 0"
  using assms by (auto simp: finalizeCur_def writeOut_def writeRej_def Let_def)

section \<open>The runaway-accumulation guardrail\<close>

lemma appendToCur_bounded:
  "str \<noteq> [] \<Longrightarrow>
   length (cur (appendToCur e str c st)) \<le> MAX_CUR_LEN
   \<and> curTabs (appendToCur e str c st) \<le> canonicalTabs e * MAX_TAB_MULTIPLIER"
  by (simp add: appendToCur_def writeRej_def Let_def)

lemma appendToCur_empty: "appendToCur e [] c st = st"
  by (simp add: appendToCur_def)

lemma finalizeCur_bounded:
  "length (cur st) \<le> MAX_CUR_LEN \<and> curTabs st \<le> canonicalTabs e * MAX_TAB_MULTIPLIER \<Longrightarrow>
   length (cur (finalizeCur e st)) \<le> MAX_CUR_LEN
   \<and> curTabs (finalizeCur e st) \<le> canonicalTabs e * MAX_TAB_MULTIPLIER"
  by (simp add: finalizeCur_def writeOut_def writeRej_def Let_def)

lemma processLine_bounded:
  assumes "length (cur st) \<le> MAX_CUR_LEN \<and> curTabs st \<le> canonicalTabs e * MAX_TAB_MULTIPLIER"
  shows "length (cur (processLine e st raw)) \<le> MAX_CUR_LEN
       \<and> curTabs (processLine e st raw) \<le> canonicalTabs e * MAX_TAB_MULTIPLIER"
proof -
  let ?st1 = "st\<lparr>pendingNL := (length (cur st) > 0)\<rparr>"
  let ?st2 = "appendToCur e (stripCR raw) True ?st1"
  have b2: "length (cur ?st2) \<le> MAX_CUR_LEN \<and> curTabs ?st2 \<le> canonicalTabs e * MAX_TAB_MULTIPLIER"
  proof (cases "stripCR raw = []")
    case True
    with assms show ?thesis by (simp add: appendToCur_empty)
  next
    case False
    then show ?thesis by (rule appendToCur_bounded)
  qed
  show ?thesis
  proof (cases "curTabs ?st2 \<ge> canonicalTabs e")
    case True
    with finalizeCur_bounded [OF b2] show ?thesis
      by (simp add: processLine_def Let_def)
  next
    case False
    with b2 show ?thesis
      by (simp add: processLine_def Let_def)
  qed
qed

lemma foldl_processLine_bounded:
  "length (cur st) \<le> MAX_CUR_LEN \<and> curTabs st \<le> canonicalTabs e * MAX_TAB_MULTIPLIER \<Longrightarrow>
   length (cur (foldl (processLine e) st input)) \<le> MAX_CUR_LEN
   \<and> curTabs (foldl (processLine e) st input) \<le> canonicalTabs e * MAX_TAB_MULTIPLIER"
proof (induction input arbitrary: st)
  case Nil
  then show ?case by simp
next
  case (Cons raw input)
  from Cons.IH [OF processLine_bounded [OF Cons.prems]] show ?case by simp
qed

text \<open>
  Claim C9: whenever appending a physical line makes the length of the accumulator exceed
  the ceiling \<open>MAX_CUR_LEN\<close> (64 * 1024 * 1024, counted as \<open>cur.length\<close> counts) or its
  delimiter count exceed eight times the canonical width, the accumulator is at once
  written to the rejects as one record, counted as rejected and reset, whatever the
  boundary test would say; so after every physical line of any file the accumulator stays
  within both bounds.
\<close>

theorem guardrail_bounds_accumulator:
  "(str \<noteq> []
      \<and> (length (cur st @ (if consumePending \<and> pendingNL st then newlineReplacement e else [])
                   @ str) > MAX_CUR_LEN
         \<or> curTabs st + countTabs str > canonicalTabs e * MAX_TAB_MULTIPLIER) \<longrightarrow>
      rejStream (appendToCur e str consumePending st)
        = map_option
            (\<lambda>r. r @ [cur st @ (if consumePending \<and> pendingNL st then newlineReplacement e else [])
                         @ str @ [LF]])
            (rejStream st)
      \<and> bad (appendToCur e str consumePending st) = bad st + 1
      \<and> cur (appendToCur e str consumePending st) = []
      \<and> curTabs (appendToCur e str consumePending st) = 0
      \<and> pendingNL (appendToCur e str consumePending st) = False
      \<and> outStream (appendToCur e str consumePending st) = outStream st
      \<and> ok (appendToCur e str consumePending st) = ok st)
   \<and> length (cur (foldl (processLine e) (initState rejects) input)) \<le> MAX_CUR_LEN
   \<and> curTabs (foldl (processLine e) (initState rejects) input)
       \<le> canonicalTabs e * MAX_TAB_MULTIPLIER"
proof (intro conjI impI)
  assume trip: "str \<noteq> []
      \<and> (length (cur st @ (if consumePending \<and> pendingNL st then newlineReplacement e else [])
                   @ str) > MAX_CUR_LEN
         \<or> curTabs st + countTabs str > canonicalTabs e * MAX_TAB_MULTIPLIER)"
  then show "rejStream (appendToCur e str consumePending st)
        = map_option
            (\<lambda>r. r @ [cur st @ (if consumePending \<and> pendingNL st then newlineReplacement e else [])
                         @ str @ [LF]])
            (rejStream st)"
    by (auto simp: appendToCur_def writeRej_def Let_def)
  from trip show "bad (appendToCur e str consumePending st) = bad st + 1"
    by (auto simp: appendToCur_def writeRej_def Let_def)
  from trip show "cur (appendToCur e str consumePending st) = []"
    by (auto simp: appendToCur_def writeRej_def Let_def)
  from trip show "curTabs (appendToCur e str consumePending st) = 0"
    by (auto simp: appendToCur_def writeRej_def Let_def)
  from trip show "pendingNL (appendToCur e str consumePending st) = False"
    by (auto simp: appendToCur_def writeRej_def Let_def)
  from trip show "outStream (appendToCur e str consumePending st) = outStream st"
    by (auto simp: appendToCur_def writeRej_def Let_def)
  from trip show "ok (appendToCur e str consumePending st) = ok st"
    by (auto simp: appendToCur_def writeRej_def Let_def)
next
  have init: "length (cur (initState rejects)) \<le> MAX_CUR_LEN
      \<and> curTabs (initState rejects) \<le> canonicalTabs e * MAX_TAB_MULTIPLIER"
    by (simp add: initState_def)
  from foldl_processLine_bounded [OF init]
  show "length (cur (foldl (processLine e) (initState rejects) input)) \<le> MAX_CUR_LEN"
    by simp
  from foldl_processLine_bounded [OF init]
  show "curTabs (foldl (processLine e) (initState rejects) input)
       \<le> canonicalTabs e * MAX_TAB_MULTIPLIER"
    by simp
qed

theorem guardrail_bounds_accumulator_witness:
  "tabs9 \<noteq> []
   \<and> curTabs joinState + countTabs tabs9 > canonicalTabs (defaultEnv 1) * MAX_TAB_MULTIPLIER
   \<and> curTabs joinState + countTabs tabs9 \<ge> canonicalTabs (defaultEnv 1)
   \<and> rejStream (appendToCur (defaultEnv 1) tabs9 True joinState)
       = Some [''a'' @ [BACKSLASH, CHR ''n''] @ tabs9 @ [LF]]
   \<and> bad (appendToCur (defaultEnv 1) tabs9 True joinState) = 1
   \<and> cur (appendToCur (defaultEnv 1) tabs9 True joinState) = []
   \<and> curTabs (foldl (processLine (defaultEnv 1)) (initState True) [tabs9]) \<le> 8"
  using guardrail_bounds_accumulator [of tabs9 joinState True "defaultEnv 1" True "[tabs9]"]
  by (simp add: joinState_def tabs9_def defaultEnv_def initState_def MAX_TAB_MULTIPLIER_def)

section \<open>Width of the accepted records\<close>

lemma countTabs_no_TAB: "TAB \<notin> set s \<Longrightarrow> countTabs s = 0"
  by (induction s) auto

lemma countTabs_stripCR: "countTabs (stripCR s) = countTabs s"
  by (induction s) (auto simp: stripCR_def)

lemma appendToCur_outStream: "outStream (appendToCur e str c st) = outStream st"
  by (simp add: appendToCur_def writeRej_def Let_def)

lemma appendToCur_count:
  assumes "TAB \<notin> set (newlineReplacement e)" and "curTabs st = countTabs (cur st)"
  shows "curTabs (appendToCur e str c st) = countTabs (cur (appendToCur e str c st))"
  using assms
  by (simp add: appendToCur_def writeRej_def Let_def countTabs_append countTabs_no_TAB)

lemma finalizeCur_count: "curTabs st = countTabs (cur st) \<Longrightarrow>
    curTabs (finalizeCur e st) = countTabs (cur (finalizeCur e st))"
  by (simp add: finalizeCur_def writeOut_def writeRej_def Let_def)

lemma finalizeCur_width:
  assumes cnt: "curTabs st = countTabs (cur st)"
    and out: "\<forall>r\<in>set (outStream st). countTabs r = canonicalTabs e"
  shows "\<forall>r\<in>set (outStream (finalizeCur e st)). countTabs r = canonicalTabs e"
proof (cases "cur st = []")
  case True
  with out show ?thesis by (simp add: finalizeCur_def)
next
  case False
  consider (exact) "curTabs st = canonicalTabs e"
    | (short) "curTabs st < canonicalTabs e" "canonicalTabs e - curTabs st \<le> paddingTolerance e"
    | (long) "canonicalTabs e < curTabs st" "curTabs st - canonicalTabs e \<le> paddingTolerance e"
    | (reject) "curTabs st \<noteq> canonicalTabs e"
        "\<not> (curTabs st < canonicalTabs e \<and> canonicalTabs e - curTabs st \<le> paddingTolerance e)"
        "\<not> (canonicalTabs e < curTabs st \<and> curTabs st - canonicalTabs e \<le> paddingTolerance e)"
    by linarith
  then show ?thesis
  proof cases
    case exact
    with False cnt out show ?thesis
      by (simp add: finalizeCur_def writeOut_def Let_def countTabs_append)
  next
    case short
    with False cnt out show ?thesis
      by (simp add: finalizeCur_def writeOut_def Let_def countTabs_append
          countTabs_replicate_TAB)
  next
    case long
    have "countTabs (join_tab (take (Suc (canonicalTabs e)) (split_tab (cur st)))) = canonicalTabs e"
      using long cnt by (intro countTabs_truncate) simp
    with long False out show ?thesis
      by (simp add: finalizeCur_def writeOut_def Let_def countTabs_append)
  next
    case reject
    with False out show ?thesis
      by (auto simp: finalizeCur_def writeOut_def writeRej_def Let_def)
  qed
qed

lemma processLine_width:
  assumes nl: "TAB \<notin> set (newlineReplacement e)"
    and inv: "curTabs st = countTabs (cur st)
              \<and> (\<forall>r\<in>set (outStream st). countTabs r = canonicalTabs e)"
  shows "curTabs (processLine e st raw) = countTabs (cur (processLine e st raw))
         \<and> (\<forall>r\<in>set (outStream (processLine e st raw)). countTabs r = canonicalTabs e)"
proof -
  let ?st1 = "st\<lparr>pendingNL := (length (cur st) > 0)\<rparr>"
  let ?st2 = "appendToCur e (stripCR raw) True ?st1"
  from inv have c1: "curTabs ?st1 = countTabs (cur ?st1)" by simp
  have c2: "curTabs ?st2 = countTabs (cur ?st2)"
    by (rule appendToCur_count [OF nl c1])
  from inv have o2: "\<forall>r\<in>set (outStream ?st2). countTabs r = canonicalTabs e"
    by (simp add: appendToCur_outStream)
  show ?thesis
  proof (cases "curTabs ?st2 \<ge> canonicalTabs e")
    case True
    with finalizeCur_count [OF c2, of e] finalizeCur_width [OF c2 o2] show ?thesis
      by (simp add: processLine_def Let_def)
  next
    case False
    with c2 o2 show ?thesis
      by (simp add: processLine_def Let_def)
  qed
qed

lemma foldl_processLine_width:
  assumes nl: "TAB \<notin> set (newlineReplacement e)"
  shows "curTabs st = countTabs (cur st)
           \<and> (\<forall>r\<in>set (outStream st). countTabs r = canonicalTabs e) \<Longrightarrow>
         curTabs (foldl (processLine e) st input) = countTabs (cur (foldl (processLine e) st input))
           \<and> (\<forall>r\<in>set (outStream (foldl (processLine e) st input)). countTabs r = canonicalTabs e)"
proof (induction input arbitrary: st)
  case Nil
  then show ?case by simp
next
  case (Cons raw input)
  from Cons.IH [OF processLine_width [OF nl Cons.prems]] show ?case by simp
qed

text \<open>
  With a placeholder that is itself a delimiter, at canonical width 2: the lines \<open>a\<close> and
  \<open>b<TAB>c<TAB>d\<close> are joined to a record whose running count is 2, since the count never
  looks at the placeholder, and the exact-match branch accepts a line of three delimiters.
\<close>

theorem accepted_width_tab_placeholder_counterexample:
  "outStream (reconstruct tabEnv True [''a'', ''b'' @ [TAB] @ ''c'' @ [TAB] @ ''d''])
     = [''a'' @ [TAB] @ ''b'' @ [TAB] @ ''c'' @ [TAB] @ ''d'' @ [LF]]
   \<and> countTabs (''a'' @ [TAB] @ ''b'' @ [TAB] @ ''c'' @ [TAB] @ ''d'' @ [LF]) = 3
   \<and> canonicalTabs tabEnv = 2"
  by (simp add: model_defs tabEnv_def)

text \<open>
  Claim C3, amended: provided the placeholder token contains no delimiter, every record
  written to the accepted stream holds exactly as many delimiters as the canonical width:
  each of the three accepting branches of the finalization (exact match, padding,
  truncation) writes a line of exactly \<open>T\<close> delimiters.
\<close>

theorem accepted_width_exact:
  assumes "TAB \<notin> set (newlineReplacement e)"
  shows "\<forall>r\<in>set (outStream (reconstruct e rejects input)). countTabs r = canonicalTabs e"
proof -
  let ?st = "foldl (processLine e) (initState rejects) input"
  have init: "curTabs (initState rejects) = countTabs (cur (initState rejects))
      \<and> (\<forall>r\<in>set (outStream (initState rejects)). countTabs r = canonicalTabs e)"
    by (simp add: initState_def)
  from foldl_processLine_width [OF assms init]
  have inv: "curTabs ?st = countTabs (cur ?st)"
    and out: "\<forall>r\<in>set (outStream ?st). countTabs r = canonicalTabs e"
    by simp_all
  from finalizeCur_width [OF inv out] out show ?thesis
    by (simp add: reconstruct_def Let_def)
qed

theorem accepted_width_exact_witness:
  "TAB \<notin> set (newlineReplacement (defaultEnv 5))
   \<and> outStream (reconstruct (defaultEnv 5) True [''a'', fiveTabLine, fiveTabLine])
       = [''a'' @ [BACKSLASH, CHR ''n''] @ fiveTabLine @ [LF], fiveTabLine @ [LF]]
   \<and> countTabs (''a'' @ [BACKSLASH, CHR ''n''] @ fiveTabLine @ [LF]) = canonicalTabs (defaultEnv 5)
   \<and> countTabs (fiveTabLine @ [LF]) = canonicalTabs (defaultEnv 5)"
  using accepted_width_exact [of "defaultEnv 5" True "[''a'', fiveTabLine, fiveTabLine]"]
  by (simp add: model_defs defaultEnv_def fiveTabLine_def)

section \<open>Clean input\<close>

lemma processLine_clean:
  assumes empty: "cur st = []" "curTabs st = 0"
    and line: "l \<noteq> []" "CR \<notin> set l" "length l \<le> MAX_CUR_LEN" "countTabs l = canonicalTabs e"
  shows "processLine e st l
         = st\<lparr>pendingNL := False, records := records st + 1, ok := ok st + 1,
               outStream := outStream st @ [l @ [LF]]\<rparr>"
proof -
  have app: "appendToCur e l True (st\<lparr>pendingNL := False\<rparr>)
             = st\<lparr>pendingNL := False, cur := l, curTabs := canonicalTabs e\<rparr>"
    using empty line by (simp add: appendToCur_def Let_def MAX_TAB_MULTIPLIER_def)
  have fin: "finalizeCur e (st\<lparr>pendingNL := False, cur := l, curTabs := canonicalTabs e\<rparr>)
             = st\<lparr>pendingNL := False, records := records st + 1, ok := ok st + 1,
                   outStream := outStream st @ [l @ [LF]], cur := [], curTabs := 0\<rparr>"
    using line by (simp add: finalizeCur_def writeOut_def Let_def)
  have "st\<lparr>pendingNL := False, records := records st + 1, ok := ok st + 1,
            outStream := outStream st @ [l @ [LF]], cur := [], curTabs := 0\<rparr>
        = st\<lparr>pendingNL := False, records := records st + 1, ok := ok st + 1,
               outStream := outStream st @ [l @ [LF]]\<rparr>"
    using empty by simp
  with app fin empty line show ?thesis
    by (simp add: processLine_def Let_def stripCR_id)
qed

lemma foldl_processLine_clean:
  assumes "\<forall>l\<in>set input. l \<noteq> [] \<and> CR \<notin> set l \<and> length l \<le> MAX_CUR_LEN
                          \<and> countTabs l = canonicalTabs e"
    and "cur st = []" "curTabs st = 0"
  shows "cur (foldl (processLine e) st input) = []
       \<and> records (foldl (processLine e) st input) = records st + length input
       \<and> ok (foldl (processLine e) st input) = ok st + length input
       \<and> bad (foldl (processLine e) st input) = bad st
       \<and> outStream (foldl (processLine e) st input)
           = outStream st @ map (\<lambda>l. l @ [LF]) input
       \<and> rejStream (foldl (processLine e) st input) = rejStream st"
  using assms
proof (induction input arbitrary: st)
  case Nil
  then show ?case by simp
next
  case (Cons l input)
  let ?st' = "st\<lparr>pendingNL := False, records := records st + 1, ok := ok st + 1,
                  outStream := outStream st @ [l @ [LF]]\<rparr>"
  from Cons.prems have step: "processLine e st l = ?st'"
    by (intro processLine_clean) simp_all
  from Cons.prems have rest: "\<forall>l\<in>set input. l \<noteq> [] \<and> CR \<notin> set l \<and> length l \<le> MAX_CUR_LEN
                          \<and> countTabs l = canonicalTabs e"
    by simp
  from Cons.prems have "cur ?st' = []" "curTabs ?st' = 0" by simp_all
  from Cons.IH [OF rest this] step show ?case by simp
qed

lemma countTabs_replicate_other: "c \<noteq> TAB \<Longrightarrow> countTabs (replicate n c) = 0"
  by (induction n) auto

text \<open>
  Two clean files that are not copied. A single line of one delimiter followed by
  \<open>MAX_CUR_LEN\<close> letters has exactly the canonical width 1, but is one unit longer than the
  ceiling: the guardrail rejects it. At canonical width 0 an empty line has exactly the
  canonical width, but \<open>appendToCur\<close> returns on an empty string: nothing is written.
\<close>

theorem clean_input_counterexample:
  "countTabs oversizeLine = canonicalTabs (defaultEnv 1)
   \<and> CR \<notin> set oversizeLine
   \<and> records (reconstruct (defaultEnv 1) True [oversizeLine]) = 0
   \<and> ok (reconstruct (defaultEnv 1) True [oversizeLine]) = 0
   \<and> bad (reconstruct (defaultEnv 1) True [oversizeLine]) = 1
   \<and> outStream (reconstruct (defaultEnv 1) True [oversizeLine]) = []
   \<and> rejStream (reconstruct (defaultEnv 1) True [oversizeLine]) = Some [oversizeLine @ [LF]]
   \<and> countTabs [] = canonicalTabs (defaultEnv 0)
   \<and> records (reconstruct (defaultEnv 0) True [[]]) = 0
   \<and> outStream (reconstruct (defaultEnv 0) True [[]]) = []"
proof -
  have empty: "countTabs [] = canonicalTabs (defaultEnv 0)
      \<and> records (reconstruct (defaultEnv 0) True [[]]) = 0
      \<and> outStream (reconstruct (defaultEnv 0) True [[]]) = []"
    by (simp add: model_defs defaultEnv_def)
  have tabs: "countTabs oversizeLine = 1"
    by (simp add: oversizeLine_def countTabs_replicate_other)
  have cr: "CR \<notin> set oversizeLine"
    by (simp add: oversizeLine_def)
  have len: "length oversizeLine = Suc MAX_CUR_LEN"
    by (simp add: oversizeLine_def)
  have ne: "oversizeLine \<noteq> []"
    by (simp add: oversizeLine_def)
  have app: "appendToCur (defaultEnv 1) oversizeLine True (initState True)
      = (initState True)\<lparr>rejStream := Some [oversizeLine @ [LF]], bad := 1\<rparr>"
    using len ne by (simp add: appendToCur_def writeRej_def Let_def initState_def)
  have step: "processLine (defaultEnv 1) (initState True) oversizeLine
      = (initState True)\<lparr>rejStream := Some [oversizeLine @ [LF]], bad := 1\<rparr>"
    using app cr
    by (simp add: processLine_def Let_def stripCR_id initState_def defaultEnv_def)
  have "reconstruct (defaultEnv 1) True [oversizeLine]
      = (initState True)\<lparr>rejStream := Some [oversizeLine @ [LF]], bad := 1\<rparr>"
    using step by (simp add: reconstruct_def Let_def initState_def)
  with tabs cr empty show ?thesis
    by (simp add: initState_def defaultEnv_def)
qed

text \<open>
  Claim C2, amended: for any input in which every logical record is a single physical line
  (as the line reader delivers it: without carriage return) that is not empty, is no
  longer than the accumulator ceiling and has exactly \<open>T\<close> delimiters, \<open>T\<close> being the
  canonical width the reconstruction uses, every record is accepted (accepted count =
  total count = number of lines, rejected count 0, nothing written to the rejects) and the
  accepted output is the input, line for line, each line ended by a line feed.
\<close>

theorem reconstruct_clean_input:
  assumes "\<forall>l\<in>set input. l \<noteq> [] \<and> CR \<notin> set l \<and> length l \<le> MAX_CUR_LEN
                          \<and> countTabs l = canonicalTabs e"
  shows "records (reconstruct e rejects input) = length input
       \<and> ok (reconstruct e rejects input) = length input
       \<and> bad (reconstruct e rejects input) = 0
       \<and> outStream (reconstruct e rejects input) = map (\<lambda>l. l @ [LF]) input
       \<and> rejStream (reconstruct e rejects input) = (if rejects then Some [] else None)"
proof -
  have "cur (initState rejects) = []" "curTabs (initState rejects) = 0"
    by (simp_all add: initState_def)
  from foldl_processLine_clean [OF assms this] show ?thesis
    by (simp add: reconstruct_def Let_def initState_def)
qed

theorem reconstruct_clean_input_witness:
  "fiveTabLine \<noteq> [] \<and> CR \<notin> set fiveTabLine \<and> length fiveTabLine \<le> MAX_CUR_LEN
   \<and> countTabs fiveTabLine = canonicalTabs (defaultEnv 5)
   \<and> records (reconstruct (defaultEnv 5) True [fiveTabLine, fiveTabLine]) = 2
   \<and> ok (reconstruct (defaultEnv 5) True [fiveTabLine, fiveTabLine]) = 2
   \<and> bad (reconstruct (defaultEnv 5) True [fiveTabLine, fiveTabLine]) = 0
   \<and> outStream (reconstruct (defaultEnv 5) True [fiveTabLine, fiveTabLine])
       = [fiveTabLine @ [LF], fiveTabLine @ [LF]]"
  using reconstruct_clean_input [of "[fiveTabLine, fiveTabLine]" "defaultEnv 5" True]
  by (simp add: fiveTabLine_def defaultEnv_def MAX_CUR_LEN_def)

section \<open>What discovery records and returns\<close>

text \<open>
  The selection loop over the histogram returns the starting pair or an entry of the
  histogram, and no entry beats the pair returned: none has a higher frequency, and none of
  the same frequency has a larger delta.
\<close>

lemma pickMode_max:
  "pickMode h (c0, f0) = (c, f) \<Longrightarrow>
     ((c, f) = (c0, f0) \<or> (c, f) \<in> set h)
     \<and> (f0 < f \<or> (f0 = f \<and> c0 \<le> c))
     \<and> (\<forall>(d, q)\<in>set h. q < f \<or> (q = f \<and> d \<le> c))"
proof (induction h arbitrary: c0 f0)
  case Nil
  then show ?case by simp
next
  case (Cons a h)
  obtain d q where a: "a = (d, q)" by (cases a)
  show ?case
  proof (cases "q > f0 \<or> (q = f0 \<and> d > c0)")
    case True
    with Cons.prems a have "pickMode h (d, q) = (c, f)" by simp
    from Cons.IH [OF this] True a show ?thesis by auto
  next
    case False
    with Cons.prems a have "pickMode h (c0, f0) = (c, f)" by simp
    from Cons.IH [OF this] False a show ?thesis by auto
  qed
qed

text \<open>
  Claim C4: discovery keeps a running absolute delimiter count over the whole file, records
  it at each anchor match position and returns the mode of the deltas between consecutive
  recorded counts (ties to the larger delta). On the file of three copies of
  \<open>anchorRecord\<close> (five delimiters each, the anchor starting at index 10 after one
  delimiter) the delimiters before the three matches number 1, 6 and 11, but the scan
  restarts after each match, never counts the three delimiters inside it, and records 1, 3
  and 5: the width returned is 2, and \<open>preprocessFile\<close> then cuts every record of the file
  to its three leading fields.
\<close>

theorem discovery_skips_anchor_delimiters:
  "countTabs anchorRecord = 5
   \<and> execAnchor True anchorRecord = Some (10, 39)
   \<and> countTabs (take 10 anchorRecord) = 1
   \<and> countTabs (anchorRecord @ take 10 anchorRecord) = 6
   \<and> countTabs (anchorRecord @ anchorRecord @ take 10 anchorRecord) = 11
   \<and> snd (scanFile [anchorRecord, anchorRecord, anchorRecord] 0 []) = [1, 3, 5]
   \<and> discoverCanonicalTabs [anchorRecord, anchorRecord, anchorRecord]
       = Inr \<lparr> d_canonicalTabs = 2, d_histogram = [(2, 2)], d_records = 3,
               d_validAnchors = 3 \<rparr>
   \<and> map_sum id outStream
         (preprocessFile DEFAULT_CONFIG [anchorRecord, anchorRecord, anchorRecord])
       = Inr [''alpha'' @ [TAB] @ ''beta'' @ [TAB] @ ''1700000000'' @ [LF],
              ''alpha'' @ [TAB] @ ''beta'' @ [TAB] @ ''1700000000'' @ [LF],
              ''alpha'' @ [TAB] @ ''beta'' @ [TAB] @ ''1700000000'' @ [LF]]"
proof -
  have scan: "countTabs anchorRecord = 5
      \<and> execAnchor True anchorRecord = Some (10, 39)
      \<and> countTabs (take 10 anchorRecord) = 1
      \<and> countTabs (anchorRecord @ take 10 anchorRecord) = 6
      \<and> countTabs (anchorRecord @ anchorRecord @ take 10 anchorRecord) = 11
      \<and> snd (scanFile [anchorRecord, anchorRecord, anchorRecord] 0 []) = [1, 3, 5]"
    by code_simp
  have d: "discoverCanonicalTabs [anchorRecord, anchorRecord, anchorRecord]
       = Inr \<lparr> d_canonicalTabs = 2, d_histogram = [(2, 2)], d_records = 3,
               d_validAnchors = 3 \<rparr>"
    by code_simp
  have p: "preprocessFile DEFAULT_CONFIG [anchorRecord, anchorRecord, anchorRecord]
       = Inr (reconstruct (defaultEnv 2) True [anchorRecord, anchorRecord, anchorRecord])"
    by (simp add: preprocessFile_def DEFAULT_CONFIG_def d defaultEnv_def)
  have r: "outStream (reconstruct (defaultEnv 2) True [anchorRecord, anchorRecord, anchorRecord])
       = [''alpha'' @ [TAB] @ ''beta'' @ [TAB] @ ''1700000000'' @ [LF],
          ''alpha'' @ [TAB] @ ''beta'' @ [TAB] @ ''1700000000'' @ [LF],
          ''alpha'' @ [TAB] @ ''beta'' @ [TAB] @ ''1700000000'' @ [LF]]"
    by (simp add: model_defs defaultEnv_def anchorRecord_def)
  from scan d p r show ?thesis by simp
qed

lemmas anchor_defs = scanLine.simps stripCR_def anchorAt_def anchorBody_def digitRun_def
  isDigit_def Let_def

text \<open>
  Claim C6: when discovery finds fewer than two anchor matches in the whole file it fails
  with the error \<open>No valid triple anchors found\<close>, and \<open>preprocessFile\<close> (with no width override,
  so that discovery runs) fails with the same error before any output stream exists.
\<close>

theorem discovery_too_few_anchors:
  assumes "length (snd (scanFile input 0 [])) < 2"
  shows "discoverCanonicalTabs input = Inl NoValidTripleAnchors
       \<and> (c_canonicalTabs cfg = None \<longrightarrow> preprocessFile cfg input = Inl NoValidTripleAnchors)"
  using assms by (simp add: discoverCanonicalTabs_def preprocessFile_def Let_def)

theorem discovery_too_few_anchors_witness:
  "length (snd (scanFile [anchorRecord] 0 [])) = 1
   \<and> length (snd (scanFile [''alpha''] 0 [])) = 0
   \<and> c_canonicalTabs DEFAULT_CONFIG = None
   \<and> discoverCanonicalTabs [anchorRecord] = Inl NoValidTripleAnchors
   \<and> preprocessFile DEFAULT_CONFIG [anchorRecord] = Inl NoValidTripleAnchors
   \<and> discoverCanonicalTabs [''alpha''] = Inl NoValidTripleAnchors
   \<and> preprocessFile DEFAULT_CONFIG [''alpha''] = Inl NoValidTripleAnchors"
  using discovery_too_few_anchors [of "[anchorRecord]" DEFAULT_CONFIG]
    discovery_too_few_anchors [of "[''alpha'']" DEFAULT_CONFIG]
  by (simp add: anchorRecord_def betaLine_def anchor_defs DEFAULT_CONFIG_def)

section \<open>Newline splice\<close>

text \<open>
  The two physical lines \<open>alpha\<close> and \<open>betaLine\<close> hold four delimiters together. At canonical
  width 5 they are flushed at the end of the stream by the padding branch, so the accepted
  record is not the joined text itself.
\<close>

theorem newline_splice_counterexample:
  "outStream (reconstruct (defaultEnv 5) True [''alpha'', betaLine])
     \<noteq> [''alpha'' @ [BACKSLASH, CHR ''n''] @ betaLine @ [LF]]
   \<and> outStream (reconstruct (defaultEnv 5) True [''alpha'', betaLine])
     \<noteq> [''alpha'' @ [BACKSLASH, CHR ''n''] @ betaLine]"
  by (simp add: model_defs defaultEnv_def betaLine_def)

text \<open>
  Claim C5, amended: at canonical width 5 (default placeholder and tolerance) the physical
  lines \<open>alpha\<close> and \<open>beta<TAB>1700000000<TAB>1234567890123<TAB>9876543210987<TAB>gamma\<close> give
  exactly one accepted record: \<open>alpha\<close>, the placeholder, the second line, and one padding
  delimiter, five delimiters in all; accepted count 1, rejected count 0.
\<close>

theorem newline_splice_padded:
  "outStream (reconstruct (defaultEnv 5) True [''alpha'', betaLine])
     = [''alpha'' @ [BACKSLASH, CHR ''n''] @ betaLine @ [TAB] @ [LF]]
   \<and> countTabs (''alpha'' @ [BACKSLASH, CHR ''n''] @ betaLine @ [TAB]) = 5
   \<and> records (reconstruct (defaultEnv 5) True [''alpha'', betaLine]) = 1
   \<and> ok (reconstruct (defaultEnv 5) True [''alpha'', betaLine]) = 1
   \<and> bad (reconstruct (defaultEnv 5) True [''alpha'', betaLine]) = 0
   \<and> rejStream (reconstruct (defaultEnv 5) True [''alpha'', betaLine]) = Some []"
  by (simp add: model_defs defaultEnv_def betaLine_def)

text \<open>
  An empty physical line inside a record: the marker is set, \<open>appendToCur\<close> returns on the
  empty string, and the next line splices a single placeholder for the two line breaks.
\<close>

theorem empty_line_no_placeholder_counterexample:
  "cur (foldl (processLine (defaultEnv 5)) (initState True) [''a'']) = ''a''
   \<and> cur (foldl (processLine (defaultEnv 5)) (initState True) [''a'', '''']) = ''a''
   \<and> pendingNL (foldl (processLine (defaultEnv 5)) (initState True) [''a'', '''']) = True
   \<and> cur (foldl (processLine (defaultEnv 5)) (initState True) [''a'', '''', ''b''])
       = ''a'' @ [BACKSLASH, CHR ''n''] @ ''b''
   \<and> rejStream (reconstruct (defaultEnv 5) True [''a'', '''', ''b''])
       = Some [''a'' @ [BACKSLASH, CHR ''n''] @ ''b'' @ [LF]]"
  by (simp add: model_defs defaultEnv_def)

text \<open>
  Claim C10, amended: for every non-empty physical line that begins while the accumulator
  is non-empty, the placeholder token is appended to the accumulator exactly once, before
  the content of the line, and the pending-join marker is clear afterwards: the text that
  is kept, finalized or force-rejected is the old accumulator, one placeholder, the line.
  An empty physical line that begins while the accumulator is non-empty (and below the
  canonical width) only sets the marker: nothing is appended, no placeholder is spliced.
\<close>

theorem processLine_splice:
  assumes "cur st \<noteq> []"
  shows "(stripCR raw \<noteq> [] \<longrightarrow>
            pendingNL (processLine e st raw) = False
            \<and> (length (cur st @ newlineReplacement e @ stripCR raw) \<le> MAX_CUR_LEN
               \<and> curTabs st + countTabs (stripCR raw) \<le> canonicalTabs e * MAX_TAB_MULTIPLIER \<longrightarrow>
                 processLine e st raw
                   = (if curTabs st + countTabs (stripCR raw) \<ge> canonicalTabs e
                      then (finalizeCur e
                              (st\<lparr>cur := cur st @ newlineReplacement e @ stripCR raw,
                                   curTabs := curTabs st + countTabs (stripCR raw),
                                   pendingNL := False\<rparr>))\<lparr>pendingNL := False\<rparr>
                      else st\<lparr>cur := cur st @ newlineReplacement e @ stripCR raw,
                              curTabs := curTabs st + countTabs (stripCR raw),
                              pendingNL := False\<rparr>))
            \<and> (length (cur st @ newlineReplacement e @ stripCR raw) > MAX_CUR_LEN
               \<or> curTabs st + countTabs (stripCR raw) > canonicalTabs e * MAX_TAB_MULTIPLIER \<longrightarrow>
                 rejStream (processLine e st raw)
                   = map_option (\<lambda>r. r @ [cur st @ newlineReplacement e @ stripCR raw @ [LF]])
                       (rejStream st)
                 \<and> cur (processLine e st raw) = []))
       \<and> (stripCR raw = [] \<and> curTabs st < canonicalTabs e \<longrightarrow>
            processLine e st raw = st\<lparr>pendingNL := True\<rparr>)"
proof (intro conjI impI)
  assume ne: "stripCR raw \<noteq> []"
  let ?acc = "cur st @ newlineReplacement e @ stripCR raw"
  let ?tabs = "curTabs st + countTabs (stripCR raw)"
  let ?joined = "st\<lparr>cur := ?acc, curTabs := ?tabs, pendingNL := False\<rparr>"
  have app: "appendToCur e (stripCR raw) True (st\<lparr>pendingNL := (length (cur st) > 0)\<rparr>)
      = (if length ?acc > MAX_CUR_LEN \<or> ?tabs > canonicalTabs e * MAX_TAB_MULTIPLIER
         then (writeRej (?acc @ [LF]) ?joined)
                \<lparr>bad := bad st + 1, cur := [], curTabs := 0, pendingNL := False\<rparr>
         else ?joined)"
    using assms ne by (simp add: appendToCur_def writeRej_def Let_def)
  show "pendingNL (processLine e st raw) = False"
    unfolding processLine_def Let_def app
    by (simp add: finalizeCur_def writeOut_def writeRej_def Let_def)
  {
    assume ok: "length ?acc \<le> MAX_CUR_LEN \<and> ?tabs \<le> canonicalTabs e * MAX_TAB_MULTIPLIER"
    then show "processLine e st raw
        = (if ?tabs \<ge> canonicalTabs e then (finalizeCur e ?joined)\<lparr>pendingNL := False\<rparr>
           else ?joined)"
      unfolding processLine_def Let_def app by simp
  }
  {
    assume trip: "length ?acc > MAX_CUR_LEN \<or> ?tabs > canonicalTabs e * MAX_TAB_MULTIPLIER"
    then show "rejStream (processLine e st raw)
        = map_option (\<lambda>r. r @ [cur st @ newlineReplacement e @ stripCR raw @ [LF]]) (rejStream st)"
      unfolding processLine_def Let_def app
      by (auto simp: finalizeCur_def writeRej_def)
    from trip show "cur (processLine e st raw) = []"
      unfolding processLine_def Let_def app
      by (auto simp: finalizeCur_def writeRej_def)
  }
next
  assume "stripCR raw = [] \<and> curTabs st < canonicalTabs e"
  with assms show "processLine e st raw = st\<lparr>pendingNL := True\<rparr>"
    by (simp add: processLine_def appendToCur_def Let_def)
qed

theorem processLine_splice_witness:
  "cur pendingA \<noteq> [] \<and> stripCR ''b'' \<noteq> []
   \<and> length (cur pendingA @ newlineReplacement (defaultEnv 5) @ stripCR ''b'') \<le> MAX_CUR_LEN
   \<and> curTabs pendingA + countTabs (stripCR ''b'')
       \<le> canonicalTabs (defaultEnv 5) * MAX_TAB_MULTIPLIER
   \<and> processLine (defaultEnv 5) pendingA ''b''
       = pendingA\<lparr>cur := ''a'' @ [BACKSLASH, CHR ''n''] @ ''b''\<rparr>
   \<and> stripCR '''' = [] \<and> curTabs pendingA < canonicalTabs (defaultEnv 5)
   \<and> processLine (defaultEnv 5) pendingA '''' = pendingA\<lparr>pendingNL := True\<rparr>"
  using processLine_splice [of pendingA "''b''" "defaultEnv 5"]
    processLine_splice [of pendingA "''''" "defaultEnv 5"]
  by (simp add: pendingA_def defaultEnv_def initState_def stripCR_def MAX_CUR_LEN_def
      MAX_TAB_MULTIPLIER_def)

section \<open>Padding and truncation at finalization\<close>

text \<open>
  With a placeholder that is itself a delimiter, at canonical width 5 and tolerance 3: the
  lines \<open>a\<close> and \<open>b<TAB>c<TAB>d\<close> leave at the end of the stream a record of three delimiters,
  two short of the width, whose running count is 2. The padding branch adds three
  delimiters, and the accepted record holds six.
\<close>

theorem pad_tab_placeholder_counterexample:
  "cur (foldl (processLine tabEnvWide) (initState True)
          [''a'', ''b'' @ [TAB] @ ''c'' @ [TAB] @ ''d''])
     = ''a'' @ [TAB] @ ''b'' @ [TAB] @ ''c'' @ [TAB] @ ''d''
   \<and> countTabs (''a'' @ [TAB] @ ''b'' @ [TAB] @ ''c'' @ [TAB] @ ''d'') = 3
   \<and> canonicalTabs tabEnvWide = 5
   \<and> paddingTolerance tabEnvWide = 3
   \<and> outStream (reconstruct tabEnvWide True [''a'', ''b'' @ [TAB] @ ''c'' @ [TAB] @ ''d''])
       = [''a'' @ [TAB] @ ''b'' @ [TAB] @ ''c'' @ [TAB] @ ''d'' @ [TAB, TAB, TAB] @ [LF]]
   \<and> countTabs (''a'' @ [TAB] @ ''b'' @ [TAB] @ ''c'' @ [TAB] @ ''d'' @ [TAB, TAB, TAB]) = 6
   \<and> ok (reconstruct tabEnvWide True [''a'', ''b'' @ [TAB] @ ''c'' @ [TAB] @ ''d'']) = 1"
  by (simp add: model_defs tabEnvWide_def numeral_3_eq_3)

text \<open>
  \<open>finalizeCur\<close> is called on the state that \<open>appendToCur\<close> leaves within the loop and on the
  state left by the last line. When the placeholder holds no delimiter, the running count
  of such a state is the number of delimiters of its accumulator.
\<close>

lemma reached_count:
  assumes nl: "TAB \<notin> set (newlineReplacement e)"
    and reached: "st = foldl (processLine e) (initState rejects) input
        \<or> st = appendToCur e str True
                 ((foldl (processLine e) (initState rejects) input)\<lparr>pendingNL := p\<rparr>)"
  shows "curTabs st = countTabs (cur st)"
proof -
  let ?st0 = "foldl (processLine e) (initState rejects) input"
  have init: "curTabs (initState rejects) = countTabs (cur (initState rejects))
      \<and> (\<forall>r\<in>set (outStream (initState rejects)). countTabs r = canonicalTabs e)"
    by (simp add: initState_def)
  from foldl_processLine_width [OF nl init]
  have c0: "curTabs ?st0 = countTabs (cur ?st0)" by simp
  then have "curTabs (?st0\<lparr>pendingNL := p\<rparr>) = countTabs (cur (?st0\<lparr>pendingNL := p\<rparr>))"
    by simp
  from appendToCur_count [OF nl this] c0 reached show ?thesis by auto
qed

text \<open>
  Claim C7, amended: provided the placeholder token contains no delimiter, at every
  finalization the code performs, a record whose delimiter count is below the canonical
  width by no more than the padding tolerance is padded with trailing delimiters to
  exactly the canonical width and written to the accepted stream, and a record whose
  delimiter count is above the canonical width by no more than the tolerance is split on
  the delimiter, cut to its \<open>T + 1\<close> leading fields, rejoined and written to the accepted
  stream. The delimiter count is that of the text of the accumulator.
\<close>

theorem finalization_pad_truncate:
  assumes "TAB \<notin> set (newlineReplacement e)"
    and "st = foldl (processLine e) (initState rejects) input
        \<or> st = appendToCur e str True
                 ((foldl (processLine e) (initState rejects) input)\<lparr>pendingNL := p\<rparr>)"
    and "cur st \<noteq> []"
  shows "(countTabs (cur st) < canonicalTabs e
          \<and> canonicalTabs e - countTabs (cur st) \<le> paddingTolerance e \<longrightarrow>
            outStream (finalizeCur e st)
              = outStream st @ [cur st @ replicate (canonicalTabs e - countTabs (cur st)) TAB @ [LF]]
            \<and> countTabs (cur st @ replicate (canonicalTabs e - countTabs (cur st)) TAB)
                = canonicalTabs e
            \<and> ok (finalizeCur e st) = ok st + 1
            \<and> bad (finalizeCur e st) = bad st
            \<and> rejStream (finalizeCur e st) = rejStream st)
       \<and> (canonicalTabs e < countTabs (cur st)
          \<and> countTabs (cur st) - canonicalTabs e \<le> paddingTolerance e \<longrightarrow>
            outStream (finalizeCur e st)
              = outStream st @ [join_tab (take (canonicalTabs e + 1) (split_tab (cur st))) @ [LF]]
            \<and> length (take (canonicalTabs e + 1) (split_tab (cur st))) = canonicalTabs e + 1
            \<and> countTabs (join_tab (take (canonicalTabs e + 1) (split_tab (cur st))))
                = canonicalTabs e
            \<and> ok (finalizeCur e st) = ok st + 1
            \<and> bad (finalizeCur e st) = bad st
            \<and> rejStream (finalizeCur e st) = rejStream st)"
proof -
  have cnt: "curTabs st = countTabs (cur st)"
    using assms(1,2) by (rule reached_count)
  from finalizeCur_pad_truncate_counted [OF assms(3) cnt, of e] cnt show ?thesis
    by simp
qed

theorem finalization_pad_truncate_witness:
  "TAB \<notin> set (newlineReplacement (defaultEnv 5))
   \<and> cur (foldl (processLine (defaultEnv 5)) (initState True) [''alpha'', betaLine])
       = ''alpha'' @ [BACKSLASH, CHR ''n''] @ betaLine
   \<and> countTabs (''alpha'' @ [BACKSLASH, CHR ''n''] @ betaLine) = 4
   \<and> outStream (finalizeCur (defaultEnv 5)
         (foldl (processLine (defaultEnv 5)) (initState True) [''alpha'', betaLine]))
       = [''alpha'' @ [BACKSLASH, CHR ''n''] @ betaLine @ [TAB] @ [LF]]
   \<and> cur (appendToCur (defaultEnv 5) sixTabLine True
             ((foldl (processLine (defaultEnv 5)) (initState True) [])\<lparr>pendingNL := False\<rparr>))
       = sixTabLine
   \<and> countTabs sixTabLine = 6
   \<and> outStream (finalizeCur (defaultEnv 5)
         (appendToCur (defaultEnv 5) sixTabLine True
             ((foldl (processLine (defaultEnv 5)) (initState True) [])\<lparr>pendingNL := False\<rparr>)))
       = [''a'' @ [TAB] @ ''b'' @ [TAB] @ ''c'' @ [TAB] @ ''d'' @ [TAB] @ ''e'' @ [TAB] @ ''f''
            @ [LF]]"
  using finalization_pad_truncate
      [of "defaultEnv 5" "foldl (processLine (defaultEnv 5)) (initState True) [''alpha'', betaLine]"
          True "[''alpha'', betaLine]" "[]" False]
    finalization_pad_truncate
      [of "defaultEnv 5"
          "appendToCur (defaultEnv 5) sixTabLine True
             ((foldl (processLine (defaultEnv 5)) (initState True) [])\<lparr>pendingNL := False\<rparr>)"
          True "[]" sixTabLine False]
  by (simp add: model_defs defaultEnv_def betaLine_def sixTabLine_def)

section \<open>Fragments\<close>










end
